theory Spec2Isabelle
  imports Complex_Main "HOL-Library.Sublist" "HOL-Library.Char_ord"
    "HOL-Library.List_Lexorder" "HOL-Library.AList"
begin

section \<open>The map parser of tools/parse\_wt\_maps.py\<close>

text \<open>
  The script reads one \<^verbatim>\<open>level.blk\<close> text per map directory, extracts grid steps, the
  map size and the game modes with regular expressions, collects one record per map in a
  dictionary, dumps the dictionary as JSON and generates Rust insertion statements.

  Modelling decisions.
  \<^item> A Python \<^verbatim>\<open>str\<close> that is read (the text of a file, the name of a directory) is an
    Isabelle \<^typ>\<open>string\<close>; the character with number \<open>n\<close> stands for the code point
    \<open>n\<close>, so the texts covered are those over the code points 0..255. On these the
    classes \<^verbatim>\<open>\s\<close> and \<^verbatim>\<open>\d\<close>, \<^verbatim>\<open>str.lower\<close> and \<^verbatim>\<open>str.title\<close> are modelled in
    full. A text that is computed from them (the display name, the generated code, the
    JSON document) is a list of code points, because title-casing can leave the range.
  \<^item> A Python \<^verbatim>\<open>float\<close> is the rational number its decimal lexeme denotes; the rounding
    to binary64 is not modelled (nor overflow to infinity, nor underflow to zero). What
    is modelled exactly is whether \<^verbatim>\<open>float(s)\<close> returns or raises \<^verbatim>\<open>ValueError\<close>; the
    truth value of a float is whether the number is different from zero. The JSON
    encoder and decoder take the text of a float and the reading of a float token as
    parameters, so what is proved of them does not depend on this choice.
  \<^item> A dict with a fixed set of possible keys is a record of optional fields; the
    dictionary of maps, whose iteration order matters, is an association list in
    insertion order.
  \<^item> Exceptions are values of type \<open>error\<close>, on the left of a sum.
\<close>

datatype error = ValueError | IndexError | KeyError | OSError

type_synonym pyfloat = rat

subsection \<open>Character classes and the regular expressions of \<open>parse_blk_file\<close>\<close>

text \<open>
  \<^verbatim>\<open>\s\<close> on a \<^verbatim>\<open>str\<close> pattern is Unicode white space: below 256 these are the code points
  9..13, 28..32, 133 and 160. \<^verbatim>\<open>\d\<close> is a Unicode decimal digit: below 256 only
  \<^verbatim>\<open>0\<close>..\<^verbatim>\<open>9\<close>.
\<close>

definition is_space :: "char \<Rightarrow> bool" where
  "is_space c = (let n = (of_char c :: nat)
                 in (9 \<le> n \<and> n \<le> 13) \<or> (28 \<le> n \<and> n \<le> 32) \<or> n = 133 \<or> n = 160)"

definition is_decimal :: "char \<Rightarrow> bool" where
  "is_decimal c = (let n = (of_char c :: nat) in 48 \<le> n \<and> n \<le> 57)"

text \<open>
  The five patterns are sequences of three kinds of items: a literal, \<^verbatim>\<open>\s*\<close>, and the
  capturing group \<^verbatim>\<open>([\d.]+)\<close>. The matcher is the backtracking matcher of \<^verbatim>\<open>re\<close>: a
  repetition is greedy and gives characters back one at a time when the rest of the
  pattern fails. It returns the captured groups in order.
\<close>

datatype cls = Space | DigitDot

fun in_cls :: "cls \<Rightarrow> char \<Rightarrow> bool" where
  "in_cls Space c = is_space c"
| "in_cls DigitDot c = (is_decimal c \<or> c = CHR ''.'')"

datatype item = Lit string | Star cls | Group cls

fun match_here :: "item list \<Rightarrow> string \<Rightarrow> string list option" where
  "match_here [] s = Some []"
| "match_here (Lit l # r) s =
     (if prefix l s then match_here r (drop (length l) s) else None)"
| "match_here (Star c # r) [] = match_here r []"
| "match_here (Star c # r) (x # xs) =
     (if in_cls c x
      then (case match_here (Star c # r) xs of
              Some gs \<Rightarrow> Some gs
            | None \<Rightarrow> match_here r (x # xs))
      else match_here r (x # xs))"
| "match_here (Group c # r) [] = None"
| "match_here (Group c # r) (x # xs) =
     (if in_cls c x
      then (case match_here (Group c # r) xs of
              Some (g # gs) \<Rightarrow> Some ((x # g) # gs)
            | _ \<Rightarrow> (case match_here r xs of
                     Some gs \<Rightarrow> Some ([x] # gs)
                   | None \<Rightarrow> None))
      else None)"

text \<open>\<^verbatim>\<open>re.search\<close>: the match at the leftmost position where the pattern matches.\<close>

fun search :: "item list \<Rightarrow> string \<Rightarrow> string list option" where
  "search re [] = match_here re []"
| "search re (x # xs) =
     (case match_here re (x # xs) of
        Some gs \<Rightarrow> Some gs
      | None \<Rightarrow> search re xs)"

text \<open>\<^verbatim>\<open>mapSize\s*:\s*\[\s*([\d.]+)\s*,\s*([\d.]+)\s*\]\<close>\<close>

definition size_re :: "item list" where
  "size_re = [Lit ''mapSize'', Star Space, Lit '':'', Star Space, Lit ''['', Star Space,
              Group DigitDot, Star Space, Lit '','', Star Space, Group DigitDot,
              Star Space, Lit '']'']"

text \<open>\<^verbatim>\<open>gridStep\s*:\s*([\d.]+)\<close>, \<^verbatim>\<open>airGridStep\s*:\s*([\d.]+)\<close>,
  \<^verbatim>\<open>navalGridStep\s*:\s*([\d.]+)\<close>\<close>

definition step_re :: "string \<Rightarrow> item list" where
  "step_re key = [Lit key, Star Space, Lit '':'', Star Space, Group DigitDot]"

definition ground_re :: "item list" where
  "ground_re = step_re ''gridStep''"

definition air_re :: "item list" where
  "air_re = step_re ''airGridStep''"

definition naval_re :: "item list" where
  "naval_re = step_re ''navalGridStep''"

subsection \<open>\<open>float\<close> on a captured lexeme\<close>

definition digits_val :: "string \<Rightarrow> int" where
  "digits_val s = foldl (\<lambda>a c. 10 * a + (of_char c - 48)) 0 s"

text \<open>
  \<^verbatim>\<open>float(s)\<close> for the strings the patterns capture (digits and dots): digits with an
  optional fraction, or a dot followed by digits; anything else raises \<^verbatim>\<open>ValueError\<close>.
\<close>

definition float_lexeme :: "string \<Rightarrow> error + pyfloat" where
  "float_lexeme s =
     (let ip = takeWhile is_decimal s; rest = dropWhile is_decimal s
      in case rest of
           [] \<Rightarrow> if ip = [] then Inl ValueError else Inr (of_int (digits_val ip))
         | c # fs \<Rightarrow>
             if c = CHR ''.'' \<and> list_all is_decimal fs \<and> (ip \<noteq> [] \<or> fs \<noteq> [])
             then Inr (of_int (digits_val ip) + of_int (digits_val fs) / 10 ^ length fs)
             else Inl ValueError)"

subsection \<open>\<open>parse_blk_file\<close>\<close>

record blk_data =
  map_size :: "(pyfloat \<times> pyfloat) option"
  ground_grid_step :: "pyfloat option"
  air_grid_step :: "pyfloat option"
  naval_grid_step :: "pyfloat option"
  game_modes :: "string list option"

text \<open>The empty dict \<^verbatim>\<open>{}\<close>: no key is present.\<close>

definition empty_data :: blk_data where
  "empty_data = \<lparr>map_size = None, ground_grid_step = None, air_grid_step = None,
                 naval_grid_step = None, game_modes = None\<rparr>"

text \<open>\<^verbatim>\<open>m.group(i)\<close> raises \<^verbatim>\<open>IndexError\<close> when the match has no group \<open>i\<close>.\<close>

definition group :: "string list \<Rightarrow> nat \<Rightarrow> error + string" where
  "group gs i = (if 1 \<le> i \<and> i \<le> length gs then Inr (gs ! (i - 1)) else Inl IndexError)"

definition size_field :: "string \<Rightarrow> error + (pyfloat \<times> pyfloat) option" where
  "size_field content =
     (case search size_re content of
        None \<Rightarrow> Inr None
      | Some gs \<Rightarrow>
          (case group gs 1 of Inl e \<Rightarrow> Inl e | Inr g1 \<Rightarrow>
          (case float_lexeme g1 of Inl e \<Rightarrow> Inl e | Inr w \<Rightarrow>
          (case group gs 2 of Inl e \<Rightarrow> Inl e | Inr g2 \<Rightarrow>
          (case float_lexeme g2 of Inl e \<Rightarrow> Inl e | Inr h \<Rightarrow> Inr (Some (w, h)))))))"

definition step_field :: "item list \<Rightarrow> string \<Rightarrow> error + pyfloat option" where
  "step_field re content =
     (case search re content of
        None \<Rightarrow> Inr None
      | Some gs \<Rightarrow>
          (case group gs 1 of Inl e \<Rightarrow> Inl e | Inr g \<Rightarrow>
          (case float_lexeme g of Inl e \<Rightarrow> Inl e | Inr v \<Rightarrow> Inr (Some v))))"

text \<open>\<^verbatim>\<open>str.lower\<close> on the code points below 256: A..Z and the capital letters
  192..222 except the multiplication sign 215 move up by 32.\<close>

definition lower_char :: "char \<Rightarrow> char" where
  "lower_char c = (let n = (of_char c :: nat)
                   in if (65 \<le> n \<and> n \<le> 90) \<or> (192 \<le> n \<and> n \<le> 222 \<and> n \<noteq> 215)
                      then char_of (n + 32) else c)"

definition lower :: "string \<Rightarrow> string" where
  "lower s = map lower_char s"

text \<open>\<^verbatim>\<open>sub in s\<close>\<close>

fun contains :: "string \<Rightarrow> string \<Rightarrow> bool" where
  "contains sub [] = (sub = [])"
| "contains sub (x # xs) = (prefix sub (x # xs) \<or> contains sub xs)"

definition detect_modes :: "string \<Rightarrow> string list" where
  "detect_modes content =
     (let modes = [];
          modes = (if contains ''ground'' (lower content) \<or> contains ''tank'' (lower content)
                   then modes @ [''ground''] else modes);
          modes = (if contains ''air'' (lower content) then modes @ [''air''] else modes);
          modes = (if contains ''naval'' (lower content) then modes @ [''naval''] else modes)
      in if modes \<noteq> [] then modes else [''unknown''])"

text \<open>The body of the \<^verbatim>\<open>try\<close> block after the file has been read.\<close>

definition parse_blk_body :: "string \<Rightarrow> error + blk_data" where
  "parse_blk_body content =
     (case size_field content of Inl e \<Rightarrow> Inl e | Inr ms \<Rightarrow>
     (case step_field ground_re content of Inl e \<Rightarrow> Inl e | Inr g \<Rightarrow>
     (case step_field air_re content of Inl e \<Rightarrow> Inl e | Inr a \<Rightarrow>
     (case step_field naval_re content of Inl e \<Rightarrow> Inl e | Inr n \<Rightarrow>
        Inr \<lparr>map_size = ms, ground_grid_step = g, air_grid_step = a,
             naval_grid_step = n, game_modes = Some (detect_modes content)\<rparr>))))"

text \<open>
  A file either cannot be opened or read (\<^verbatim>\<open>OSError\<close>) or yields its text; decoding never
  fails because of \<^verbatim>\<open>errors='ignore'\<close>. \<^verbatim>\<open>except Exception\<close> turns every failure into
  the empty dict.
\<close>

datatype blk_file = Unreadable | Content string

definition read_file :: "blk_file \<Rightarrow> error + string" where
  "read_file f = (case f of Unreadable \<Rightarrow> Inl OSError | Content s \<Rightarrow> Inr s)"

definition parse_blk_file :: "blk_file \<Rightarrow> blk_data" where
  "parse_blk_file f =
     (case read_file f of
        Inl e \<Rightarrow> empty_data
      | Inr content \<Rightarrow>
          (case parse_blk_body content of Inl e \<Rightarrow> empty_data | Inr data \<Rightarrow> data))"

subsection \<open>\<open>extract_all_maps\<close>\<close>

text \<open>\<^verbatim>\<open>s.replace(old, new)\<close>: every occurrence, left to right, without overlap.\<close>

function replace :: "string \<Rightarrow> string \<Rightarrow> string \<Rightarrow> string" where
  "replace old new [] = (if old = [] then new else [])"
| "replace old new (x # xs) =
     (if old = [] then new @ x # replace old new xs
      else if prefix old (x # xs) then new @ replace old new (drop (length old) (x # xs))
      else x # replace old new xs)"
  by pat_completeness auto
termination
  by (relation "measure (\<lambda>(old, new, s). length s)") (auto simp: neq_Nil_conv)

text \<open>
  A text that is computed and can leave the code points 0..255 is a list of code points:
  the display name (title-casing maps the micro sign 181 to 924 and \<open>y\<close> with diaeresis
  255 to 376), and with it the generated code and the JSON document. \<open>cp s\<close> is the text
  of the string \<open>s\<close>.
\<close>

type_synonym ustr = "nat list"

definition cp :: "string \<Rightarrow> ustr" where
  "cp s = map of_char s"

text \<open>
  \<^verbatim>\<open>str.title\<close>: a character that follows a cased character is lowercased, any other is
  titlecased. Below 256 the cased characters are the ASCII letters, the ordinal indicators
  170 and 186, the micro sign 181 and the letters 192..255 except the signs 215 and 247.
  Titlecasing moves \<^verbatim>\<open>a\<close>..\<^verbatim>\<open>z\<close> and the small letters 224..254 (except 247) down by 32,
  sends 181 to 924 and 255 to 376, and expands the sharp s 223 to \<^verbatim>\<open>Ss\<close>; it leaves
  every other character as it is.
\<close>

definition is_cased :: "char \<Rightarrow> bool" where
  "is_cased c =
     (let n = (of_char c :: nat)
      in (65 \<le> n \<and> n \<le> 90) \<or> (97 \<le> n \<and> n \<le> 122) \<or> n = 170 \<or> n = 181 \<or> n = 186 \<or>
         (192 \<le> n \<and> n \<le> 214) \<or> (216 \<le> n \<and> n \<le> 246) \<or> (248 \<le> n \<and> n \<le> 255))"

definition title_char :: "char \<Rightarrow> ustr" where
  "title_char c =
     (let n = (of_char c :: nat)
      in if (97 \<le> n \<and> n \<le> 122) \<or> (224 \<le> n \<and> n \<le> 246) \<or> (248 \<le> n \<and> n \<le> 254)
         then [n - 32]
         else if n = 181 then [924]
         else if n = 223 then [83, 115]
         else if n = 255 then [376]
         else [n])"

fun title_from :: "bool \<Rightarrow> string \<Rightarrow> ustr" where
  "title_from previous_is_cased [] = []"
| "title_from previous_is_cased (c # cs) =
     (if previous_is_cased then [of_char (lower_char c)] else title_char c) @
     title_from (is_cased c) cs"

definition title :: "string \<Rightarrow> ustr" where
  "title s = title_from False s"

text \<open>\<^verbatim>\<open>map_name.replace('avg_', '').replace('_', ' ').title()\<close>\<close>

definition localized_name_of :: "string \<Rightarrow> ustr" where
  "localized_name_of map_name = title (replace ''_'' '' '' (replace ''avg_'' [] map_name))"

text \<open>The dict stored per map: \<^verbatim>\<open>{'name': ..., 'localized_name': ..., **map_data}\<close>.\<close>

record map_info = blk_data +
  name :: string
  localized_name :: ustr

definition make_info :: "string \<Rightarrow> ustr \<Rightarrow> blk_data \<Rightarrow> map_info" where
  "make_info map_name localized map_data =
     \<lparr>map_size = map_size map_data, ground_grid_step = ground_grid_step map_data,
      air_grid_step = air_grid_step map_data, naval_grid_step = naval_grid_step map_data,
      game_modes = game_modes map_data, name = map_name, localized_name = localized\<rparr>"

text \<open>
  One entry of \<^verbatim>\<open>levels_path.iterdir()\<close>: its name, whether it is a directory, and its
  \<^verbatim>\<open>level.blk\<close> if that exists. The dictionary \<^verbatim>\<open>maps\<close> is an association list in
  insertion order; \<^verbatim>\<open>maps[k] = v\<close> is \<^const>\<open>AList.update\<close>, which replaces the value of
  a key in place and appends a new key at the end, as a Python dict does.
\<close>

record dir_entry =
  entry_name :: string
  is_dir :: bool
  level_blk :: "blk_file option"

type_synonym maps = "(string \<times> map_info) list"

definition visit :: "maps \<Rightarrow> dir_entry \<Rightarrow> maps" where
  "visit ms level_dir =
     (if \<not> is_dir level_dir then ms
      else case level_blk level_dir of
             None \<Rightarrow> ms
           | Some f \<Rightarrow>
               (let map_name = entry_name level_dir; map_data = parse_blk_file f
                in if map_data \<noteq> empty_data
                   then AList.update map_name
                          (make_info map_name (localized_name_of map_name) map_data) ms
                   else ms))"

text \<open>The argument is the listing of the levels directory, \<open>None\<close> when it does not exist.\<close>

definition extract_all_maps :: "dir_entry list option \<Rightarrow> maps" where
  "extract_all_maps levels =
     (case levels of None \<Rightarrow> [] | Some entries \<Rightarrow> foldl visit [] entries)"

subsection \<open>\<open>generate_rust_code\<close>\<close>

definition digit_char :: "int \<Rightarrow> char" where
  "digit_char d = ''0123456789'' ! nat (d mod 10)"

function int_str :: "int \<Rightarrow> string" where
  "int_str n = (if n < 10 then [digit_char n] else int_str (n div 10) @ [digit_char n])"
  by pat_completeness auto
termination
  by (relation "measure nat") auto

declare int_str.simps [simp del]

fun frac_digits :: "nat \<Rightarrow> rat \<Rightarrow> string" where
  "frac_digits 0 r = []"
| "frac_digits (Suc k) r =
     (if r = 0 then []
      else digit_char \<lfloor>r * 10\<rfloor> # frac_digits k (r * 10 - of_int \<lfloor>r * 10\<rfloor>))"

text \<open>
  The text of a float in an f-string, in positional notation with at least one digit
  after the point and at most 17 (\<^verbatim>\<open>50.0\<close>, \<^verbatim>\<open>0.25\<close>). Python switches to exponent
  notation from \<^verbatim>\<open>1e16\<close> on and below \<^verbatim>\<open>1e-4\<close>, which is not modelled.
\<close>

definition float_str :: "pyfloat \<Rightarrow> string" where
  "float_str q =
     (let a = \<bar>q\<bar>; ip = \<lfloor>a\<rfloor>; fr = frac_digits 17 (a - of_int ip)
      in (if q < 0 then ''-'' else []) @ int_str ip @ ''.'' @ (if fr = [] then ''0'' else fr))"

text \<open>\<^verbatim>\<open>sep.join(xs)\<close>\<close>

fun join :: "'a list \<Rightarrow> 'a list list \<Rightarrow> 'a list" where
  "join sep [] = []"
| "join sep [x] = x"
| "join sep (x # y # ys) = x @ sep @ join sep (y # ys)"

text \<open>\<^verbatim>\<open>f"Some({step})" if step else "None"\<close> where \<^verbatim>\<open>step = data.get(key)\<close>: the
  condition is the truth value of \<^verbatim>\<open>step\<close>, false for \<^verbatim>\<open>None\<close> and for \<^verbatim>\<open>0.0\<close>.\<close>

definition truthy :: "pyfloat option \<Rightarrow> bool" where
  "truthy step = (case step of None \<Rightarrow> False | Some v \<Rightarrow> v \<noteq> 0)"

definition py_str :: "pyfloat option \<Rightarrow> string" where
  "py_str step = (case step of None \<Rightarrow> ''None'' | Some v \<Rightarrow> float_str v)"

definition step_expr :: "pyfloat option \<Rightarrow> string" where
  "step_expr step = (if truthy step then ''Some('' @ py_str step @ '')'' else ''None'')"

definition nl :: string where
  "nl = [CHR 0x0A]"

definition dq :: string where
  "dq = [CHR 0x22]"

definition mode_expr :: "string \<Rightarrow> string" where
  "mode_expr m = dq @ m @ dq @ ''.to_string()''"

text \<open>One block of the generated code; \<^verbatim>\<open>data['game_modes']\<close> raises \<^verbatim>\<open>KeyError\<close>
  when the key is missing. The display name is inserted twice.\<close>

definition rust_entry :: "string \<Rightarrow> map_info \<Rightarrow> error + ustr" where
  "rust_entry map_name data =
     (let ground_step = ground_grid_step data;
          air_step = air_grid_step data;
          naval_step = naval_grid_step data;
          (w, h) = (case map_size data of None \<Rightarrow> (4096, 4096) | Some p \<Rightarrow> p)
      in case game_modes data of
           None \<Rightarrow> Inl KeyError
         | Some modes \<Rightarrow> Inr (
             cp (nl @ ''        // '') @ localized_name data @
             cp (nl @ ''        self.maps.insert('' @ dq @ map_name @ dq @ ''.to_string(), MapGridInfo {'' @
                 nl @ ''            name: '' @ dq @ map_name @ dq @ ''.to_string(),'' @
                 nl @ ''            localized_name: '' @ dq) @ localized_name data @
             cp (dq @ ''.to_string(),'' @
                 nl @ ''            ground_grid_step: '' @ step_expr ground_step @ '','' @
                 nl @ ''            air_grid_step: '' @ step_expr air_step @ '','' @
                 nl @ ''            naval_grid_step: '' @ step_expr naval_step @ '','' @
                 nl @ ''            map_size: ['' @ float_str w @ '', '' @ float_str h @ ''],'' @
                 nl @ ''            game_modes: vec!['' @ join '', '' (map mode_expr modes) @ ''],'' @
                 nl @ ''        });'')))"

text \<open>\<^verbatim>\<open>sorted(maps.items())\<close>: the keys of a dict are distinct, so the pairs are ordered
  by key alone.\<close>

definition sorted_items :: "maps \<Rightarrow> maps" where
  "sorted_items ms = sort_key fst ms"

fun rust_entries :: "maps \<Rightarrow> error + ustr list" where
  "rust_entries [] = Inr []"
| "rust_entries ((map_name, data) # rest) =
     (case rust_entry map_name data of
        Inl e \<Rightarrow> Inl e
      | Inr block \<Rightarrow> (case rust_entries rest of Inl e \<Rightarrow> Inl e | Inr code \<Rightarrow> Inr (block # code)))"

definition generate_rust_code :: "maps \<Rightarrow> error + ustr" where
  "generate_rust_code ms =
     (case rust_entries (sorted_items ms) of
        Inl e \<Rightarrow> Inl e
      | Inr code \<Rightarrow> Inr (join (cp nl) code))"

text \<open>
  The identifiers in the order in which the generated code inserts them, and in the
  order in which \<^verbatim>\<open>json.dump(maps, f, indent=2, ensure_ascii=False)\<close> writes the members
  of the top-level object: \<^verbatim>\<open>sort_keys\<close> is not given, so the encoder follows the
  iteration order of the dict, which is its insertion order.
\<close>

definition rust_order :: "maps \<Rightarrow> string list" where
  "rust_order ms = map fst (sorted_items ms)"

definition json_order :: "maps \<Rightarrow> string list" where
  "json_order ms = map fst ms"

subsection \<open>The JSON document\<close>

text \<open>
  \<open>main\<close> writes the dictionary with \<^verbatim>\<open>json.dump(maps, f, indent=2, ensure_ascii=False)\<close>.
  The encoder and the decoder belong to the standard library; they are modelled here from
  the \<^verbatim>\<open>json\<close> module of CPython, on texts as lists of code points (the file is written
  and read as UTF-8, which keeps the code points).

  A Python value that JSON can hold. A \<^verbatim>\<open>dict\<close> is the list of its items in insertion
  order, with keys that are strings.
\<close>

datatype pyval =
    PNone | PBool bool | PInt int | PFloat pyfloat | PStr ustr
  | PList "pyval list" | PDict "(ustr \<times> pyval) list"

text \<open>
  \<^verbatim>\<open>encode_basestring\<close> (the string encoder for \<^verbatim>\<open>ensure_ascii=False\<close>): the quotation
  mark, the backslash and the control characters below 32 are escaped, every other code
  point is copied.
\<close>

definition hex_digit :: "nat \<Rightarrow> nat" where
  "hex_digit d = (if d < 10 then 48 + d else 87 + d)"

definition escape_char :: "nat \<Rightarrow> ustr" where
  "escape_char c =
     (if c = 34 then [92, 34]
      else if c = 92 then [92, 92]
      else if c = 10 then [92, 110]
      else if c = 13 then [92, 114]
      else if c = 9 then [92, 116]
      else if c = 8 then [92, 98]
      else if c = 12 then [92, 102]
      else if c < 32 then [92, 117, 48, 48, hex_digit (c div 16), hex_digit (c mod 16)]
      else [c])"

definition encode_basestring :: "ustr \<Rightarrow> ustr" where
  "encode_basestring s = 34 # concat (map escape_char s) @ [34]"





text \<open>
  The dictionary \<^verbatim>\<open>maps\<close> as a Python value. The dict of a map holds \<^verbatim>\<open>name\<close> and
  \<^verbatim>\<open>localized_name\<close> followed by the keys of \<^verbatim>\<open>map_data\<close> in the order in which
  \<open>parse_blk_file\<close> assigns them; a field that is absent has no key.
\<close>

definition info_members :: "map_info \<Rightarrow> (ustr \<times> pyval) list" where
  "info_members data =
     [(cp ''name'', PStr (cp (name data))), (cp ''localized_name'', PStr (localized_name data))] @
     (case map_size data of
        None \<Rightarrow> []
      | Some (w, h) \<Rightarrow> [(cp ''map_size'', PList [PFloat w, PFloat h])]) @
     (case ground_grid_step data of None \<Rightarrow> [] | Some v \<Rightarrow> [(cp ''ground_grid_step'', PFloat v)]) @
     (case air_grid_step data of None \<Rightarrow> [] | Some v \<Rightarrow> [(cp ''air_grid_step'', PFloat v)]) @
     (case naval_grid_step data of None \<Rightarrow> [] | Some v \<Rightarrow> [(cp ''naval_grid_step'', PFloat v)]) @
     (case game_modes data of
        None \<Rightarrow> []
      | Some modes \<Rightarrow> [(cp ''game_modes'', PList (map (\<lambda>m. PStr (cp m)) modes))])"

definition maps_value :: "maps \<Rightarrow> pyval" where
  "maps_value ms = PDict (map (\<lambda>(map_name, data). (cp map_name, PDict (info_members data))) ms)"






























subsection \<open>Field-by-field extraction, as the specification words it\<close>

text \<open>
  The specification describes extraction field by field: one pattern per field, and a
  field whose value cannot be produced is omitted, whatever happens to the other fields.
  The definitions below follow these words and are compared with \<open>parse_blk_file\<close>.
  \<open>converts g\<close> says that \<^verbatim>\<open>float(g)\<close> returns; \<open>conversion_fails content\<close> says that
  some pattern matches in \<open>content\<close> with a capture on which \<^verbatim>\<open>float\<close> raises.
\<close>

definition converts :: "string \<Rightarrow> bool" where
  "converts g = (case float_lexeme g of Inl e \<Rightarrow> False | Inr v \<Rightarrow> True)"

definition bad_capture :: "item list \<Rightarrow> string \<Rightarrow> bool" where
  "bad_capture re content =
     (case search re content of None \<Rightarrow> False | Some gs \<Rightarrow> \<not> list_all converts gs)"

definition conversion_fails :: "string \<Rightarrow> bool" where
  "conversion_fails content =
     (bad_capture size_re content \<or> bad_capture ground_re content \<or>
      bad_capture air_re content \<or> bad_capture naval_re content)"

definition spec_step :: "item list \<Rightarrow> string \<Rightarrow> pyfloat option" where
  "spec_step re content =
     (case search re content of
        Some [g] \<Rightarrow> (case float_lexeme g of Inl e \<Rightarrow> None | Inr v \<Rightarrow> Some v)
      | _ \<Rightarrow> None)"

definition spec_size :: "string \<Rightarrow> (pyfloat \<times> pyfloat) option" where
  "spec_size content =
     (case search size_re content of
        Some [g1, g2] \<Rightarrow>
          (case (float_lexeme g1, float_lexeme g2) of
             (Inr w, Inr h) \<Rightarrow> Some (w, h)
           | _ \<Rightarrow> None)
      | _ \<Rightarrow> None)"

definition spec_extract :: "string \<Rightarrow> blk_data" where
  "spec_extract content =
     \<lparr>map_size = spec_size content, ground_grid_step = spec_step ground_re content,
      air_grid_step = spec_step air_re content, naval_grid_step = spec_step naval_re content,
      game_modes = Some (detect_modes content)\<rparr>"

text \<open>
  The display name as the specification words it: the prefix token is stripped from the
  front of the identifier only.
\<close>

definition strip_prefix_token :: "string \<Rightarrow> string \<Rightarrow> string" where
  "strip_prefix_token tok s = (if prefix tok s then drop (length tok) s else s)"

definition spec_display_name :: "string \<Rightarrow> ustr" where
  "spec_display_name ident = title (replace ''_'' '' '' (strip_prefix_token ''avg_'' ident))"

text \<open>The entries of the listing for which \<open>visit\<close> stores a record.\<close>

definition accepted :: "dir_entry \<Rightarrow> bool" where
  "accepted e =
     (is_dir e \<and>
      (case level_blk e of None \<Rightarrow> False | Some f \<Rightarrow> parse_blk_file f \<noteq> empty_data))"

section \<open>Properties\<close>

subsection \<open>Substrings and the matcher\<close>

lemma contains_prefix: "prefix sub s \<Longrightarrow> contains sub s"
  by (cases s) auto

lemma contains_iff: "contains sub s \<longleftrightarrow> (\<exists>pre post. s = pre @ sub @ post)"
proof (induction s)
  case Nil
  then show ?case by auto
next
  case (Cons x xs)
  show ?case
  proof
    assume "contains sub (x # xs)"
    then consider "prefix sub (x # xs)" | "contains sub xs" by auto
    then show "\<exists>pre post. x # xs = pre @ sub @ post"
    proof cases
      case 1
      then obtain post where "x # xs = sub @ post" by (auto simp: prefix_def)
      then have "x # xs = [] @ sub @ post" by simp
      then show ?thesis by blast
    next
      case 2
      with Cons.IH obtain pre post where "xs = pre @ sub @ post" by blast
      then have "x # xs = (x # pre) @ sub @ post" by simp
      then show ?thesis by blast
    qed
  next
    assume "\<exists>pre post. x # xs = pre @ sub @ post"
    then obtain pre post where eq: "x # xs = pre @ sub @ post" by blast
    show "contains sub (x # xs)"
    proof (cases pre)
      case Nil
      with eq have "prefix sub (x # xs)" by (simp add: prefix_def)
      then show ?thesis by simp
    next
      case (Cons p ps)
      with eq have "xs = ps @ sub @ post" by simp
      with Cons.IH have "contains sub xs" by blast
      then show ?thesis by simp
    qed
  qed
qed

lemma match_lit: "match_here (Lit l # r) s = Some gs \<Longrightarrow> prefix l s \<and> match_here r (drop (length l) s) = Some gs"
  by (simp split: if_splits)

lemma search_lit_contains: "search (Lit l # r) s = Some gs \<Longrightarrow> contains l s"
proof (induction s)
  case Nil
  then show ?case by (simp split: if_splits)
next
  case (Cons x xs)
  then show ?case by (auto split: option.splits if_splits)
qed

lemma search_matches: "search re s = Some gs \<Longrightarrow> \<exists>s'. match_here re s' = Some gs"
  by (induction s) (auto split: option.splits)

lemma star_matches: "match_here (Star c # r) s = Some gs \<Longrightarrow> \<exists>s'. match_here r s' = Some gs"
  by (induction s) (auto split: option.splits if_splits)

lemma group_matches:
  "match_here (Group c # r) s = Some gs \<Longrightarrow>
     \<exists>g gs'. gs = g # gs' \<and> g \<noteq> [] \<and> (\<forall>x\<in>set g. in_cls c x) \<and> (\<exists>s'. match_here r s' = Some gs')"
proof (induction s arbitrary: gs)
  case Nil
  then show ?case by simp
next
  case (Cons x xs)
  from Cons.prems have cx: "in_cls c x" by (simp split: if_splits)
  show ?case
  proof (cases "match_here (Group c # r) xs")
    case None
    with Cons.prems cx obtain gs' where "match_here r xs = Some gs'" "gs = [x] # gs'"
      by (auto split: option.splits)
    with cx show ?thesis by auto
  next
    case (Some hs)
    from Cons.IH[OF Some] obtain g gs' where h: "hs = g # gs'" "g \<noteq> []" "\<forall>x\<in>set g. in_cls c x"
      "\<exists>s'. match_here r s' = Some gs'" by blast
    with Cons.prems cx Some have "gs = (x # g) # gs'" by simp
    with h cx show ?thesis by auto
  qed
qed

lemma step_re_captures:
  assumes "search (step_re key) s = Some gs"
  shows "\<exists>g. gs = [g] \<and> g \<noteq> [] \<and> (\<forall>x\<in>set g. is_decimal x \<or> x = CHR ''.'')"
proof -
  from search_matches[OF assms] obtain s1 where "match_here (step_re key) s1 = Some gs" by blast
  then have "match_here [Star Space, Lit '':'', Star Space, Group DigitDot] (drop (length key) s1) = Some gs"
    unfolding step_re_def using match_lit by blast
  from star_matches[OF this] obtain s2 where "match_here [Lit '':'', Star Space, Group DigitDot] s2 = Some gs" by blast
  from match_lit[OF this] have "match_here [Star Space, Group DigitDot] (drop (length '':'') s2) = Some gs" by blast
  from star_matches[OF this] obtain s3 where "match_here [Group DigitDot] s3 = Some gs" by blast
  from group_matches[OF this] obtain g gs' s4 where
    h: "gs = g # gs'" "g \<noteq> []" "\<forall>x\<in>set g. in_cls DigitDot x" "match_here [] s4 = Some gs'" by blast
  then have "gs' = []" by simp
  with h show ?thesis by auto
qed

lemma size_re_captures:
  assumes "search size_re s = Some gs"
  shows "\<exists>g1 g2. gs = [g1, g2] \<and> g1 \<noteq> [] \<and> g2 \<noteq> [] \<and> (\<forall>x\<in>set (g1 @ g2). is_decimal x \<or> x = CHR ''.'')"
proof -
  from search_matches[OF assms] obtain s1 where "match_here size_re s1 = Some gs" by blast
  then have "match_here [Star Space, Lit '':'', Star Space, Lit ''['', Star Space,
              Group DigitDot, Star Space, Lit '','', Star Space, Group DigitDot,
              Star Space, Lit '']''] (drop (length ''mapSize'') s1) = Some gs"
    unfolding size_re_def using match_lit by blast
  from star_matches[OF this] obtain s2 where "match_here [Lit '':'', Star Space, Lit ''['', Star Space,
              Group DigitDot, Star Space, Lit '','', Star Space, Group DigitDot,
              Star Space, Lit '']''] s2 = Some gs" by blast
  from match_lit[OF this] have "match_here [Star Space, Lit ''['', Star Space,
              Group DigitDot, Star Space, Lit '','', Star Space, Group DigitDot,
              Star Space, Lit '']''] (drop (length '':'') s2) = Some gs" by blast
  from star_matches[OF this] obtain s3 where "match_here [Lit ''['', Star Space,
              Group DigitDot, Star Space, Lit '','', Star Space, Group DigitDot,
              Star Space, Lit '']''] s3 = Some gs" by blast
  from match_lit[OF this] have "match_here [Star Space,
              Group DigitDot, Star Space, Lit '','', Star Space, Group DigitDot,
              Star Space, Lit '']''] (drop (length ''['') s3) = Some gs" by blast
  from star_matches[OF this] obtain s4 where "match_here [
              Group DigitDot, Star Space, Lit '','', Star Space, Group DigitDot,
              Star Space, Lit '']''] s4 = Some gs" by blast
  from group_matches[OF this] obtain g1 gs1 s5 where
    h1: "gs = g1 # gs1" "g1 \<noteq> []" "\<forall>x\<in>set g1. in_cls DigitDot x"
      "match_here [Star Space, Lit '','', Star Space, Group DigitDot, Star Space, Lit '']''] s5 = Some gs1" by blast
  from star_matches[OF h1(4)] obtain s6 where "match_here [Lit '','', Star Space, Group DigitDot, Star Space, Lit '']''] s6 = Some gs1" by blast
  from match_lit[OF this] have "match_here [Star Space, Group DigitDot, Star Space, Lit '']''] (drop (length '','') s6) = Some gs1" by blast
  from star_matches[OF this] obtain s7 where "match_here [Group DigitDot, Star Space, Lit '']''] s7 = Some gs1" by blast
  from group_matches[OF this] obtain g2 gs2 s8 where
    h2: "gs1 = g2 # gs2" "g2 \<noteq> []" "\<forall>x\<in>set g2. in_cls DigitDot x"
      "match_here [Star Space, Lit '']''] s8 = Some gs2" by blast
  from star_matches[OF h2(4)] obtain s9 where "match_here [Lit '']''] s9 = Some gs2" by blast
  from match_lit[OF this] have "match_here [] (drop (length '']'') s9) = Some gs2" by blast
  then have "gs2 = []" by simp
  with h1 h2 show ?thesis by auto
qed

subsection \<open>Conversion of a captured lexeme\<close>

lemma not_decimal_dot: "\<not> is_decimal (CHR ''.'')"
  by (simp add: is_decimal_def)

lemma float_lexeme_ok_iff:
  assumes dd: "\<forall>x\<in>set g. is_decimal x \<or> x = CHR ''.''"
  shows "converts g \<longleftrightarrow> count_list g (CHR ''.'') \<le> 1 \<and> (\<exists>x\<in>set g. is_decimal x)"
proof -
  define ip where "ip = takeWhile is_decimal g"
  define rest where "rest = dropWhile is_decimal g"
  have g: "g = ip @ rest" by (simp add: ip_def rest_def)
  have ipd: "\<forall>x\<in>set ip. is_decimal x" by (auto simp: ip_def dest: set_takeWhileD)
  then have ipc: "count_list ip (CHR ''.'') = 0" using not_decimal_dot by (auto simp: count_list_0_iff)
  show ?thesis
  proof (cases rest)
    case Nil
    with g have "g = ip" by simp
    moreover have "converts g \<longleftrightarrow> ip \<noteq> []"
      using Nil by (simp add: converts_def float_lexeme_def ip_def[symmetric] rest_def[symmetric])
    ultimately show ?thesis using ipd ipc by (cases ip) auto
  next
    case (Cons c fs)
    have "\<not> is_decimal c" using Cons hd_dropWhile[of is_decimal g] by (auto simp: rest_def)
    moreover have "c \<in> set g" using g Cons by simp
    ultimately have c: "c = CHR ''.''" using dd by blast
    have fsd: "\<forall>x\<in>set fs. is_decimal x \<or> x = CHR ''.''" using dd g Cons by simp
    have conv: "converts g \<longleftrightarrow> list_all is_decimal fs \<and> (ip \<noteq> [] \<or> fs \<noteq> [])"
      using Cons c by (simp add: converts_def float_lexeme_def ip_def[symmetric] rest_def[symmetric])
    have cnt: "count_list g (CHR ''.'') = Suc (count_list fs (CHR ''.''))"
      using g Cons c ipc by simp
    have all: "list_all is_decimal fs \<longleftrightarrow> count_list fs (CHR ''.'') = 0"
      using fsd not_decimal_dot by (auto simp: count_list_0_iff list_all_iff)
    have ex: "list_all is_decimal fs \<Longrightarrow> (\<exists>x\<in>set g. is_decimal x) \<longleftrightarrow> (ip \<noteq> [] \<or> fs \<noteq> [])"
    proof -
      assume a: "list_all is_decimal fs"
      have "set g = set ip \<union> {c} \<union> set fs" using g Cons by auto
      then have "(\<exists>x\<in>set g. is_decimal x) \<longleftrightarrow> (\<exists>x\<in>set ip. is_decimal x) \<or> (\<exists>x\<in>set fs. is_decimal x)"
        using \<open>\<not> is_decimal c\<close> by auto
      also have "\<dots> \<longleftrightarrow> ip \<noteq> [] \<or> fs \<noteq> []"
        using ipd a by (cases ip; cases fs) (auto simp: list_all_iff)
      finally show ?thesis .
    qed
    show ?thesis using conv cnt all ex by auto
  qed
qed

lemma float_lexeme_error: "float_lexeme g = Inl e \<Longrightarrow> e = ValueError"
  by (auto simp: float_lexeme_def Let_def split: list.splits if_splits)

lemma converts_iff: "converts g \<longleftrightarrow> (\<exists>v. float_lexeme g = Inr v)"
  by (auto simp: converts_def split: sum.splits)

subsection \<open>The extractor, field by field\<close>

lemma step_field_eq:
  "step_field (step_re key) c =
     (if bad_capture (step_re key) c then Inl ValueError else Inr (spec_step (step_re key) c))"
proof (cases "search (step_re key) c")
  case None
  then show ?thesis by (simp add: step_field_def bad_capture_def spec_step_def)
next
  case (Some gs)
  from step_re_captures[OF Some] obtain g where g: "gs = [g]" by blast
  show ?thesis
  proof (cases "float_lexeme g")
    case (Inl e)
    with float_lexeme_error have "e = ValueError" by blast
    with Inl Some g show ?thesis
      by (simp add: step_field_def bad_capture_def spec_step_def group_def converts_def)
  next
    case (Inr v)
    with Some g show ?thesis
      by (simp add: step_field_def bad_capture_def spec_step_def group_def converts_def)
  qed
qed

lemma size_field_eq:
  "size_field c = (if bad_capture size_re c then Inl ValueError else Inr (spec_size c))"
proof (cases "search size_re c")
  case None
  then show ?thesis by (simp add: size_field_def bad_capture_def spec_size_def)
next
  case (Some gs)
  from size_re_captures[OF Some] obtain g1 g2 where g: "gs = [g1, g2]" by blast
  show ?thesis
  proof (cases "float_lexeme g1")
    case (Inl e)
    with float_lexeme_error have "e = ValueError" by blast
    with Inl Some g show ?thesis
      by (simp add: size_field_def bad_capture_def spec_size_def group_def converts_def)
  next
    case w: (Inr w)
    show ?thesis
    proof (cases "float_lexeme g2")
      case (Inl e)
      with float_lexeme_error have "e = ValueError" by blast
      with Inl w Some g show ?thesis
        by (simp add: size_field_def bad_capture_def spec_size_def group_def converts_def)
    next
      case (Inr h)
      with w Some g show ?thesis
        by (simp add: size_field_def bad_capture_def spec_size_def group_def converts_def)
    qed
  qed
qed

lemma parse_blk_body_eq:
  "parse_blk_body c = (if conversion_fails c then Inl ValueError else Inr (spec_extract c))"
  unfolding parse_blk_body_def conversion_fails_def spec_extract_def
    ground_re_def air_re_def naval_re_def
  by (simp add: size_field_eq step_field_eq)

lemma spec_extract_nonempty: "spec_extract c \<noteq> empty_data"
  by (simp add: spec_extract_def empty_data_def)

lemma parse_blk_file_fieldwise:
  "parse_blk_file (Content c) = (if conversion_fails c then empty_data else spec_extract c)"
  by (simp add: parse_blk_file_def read_file_def parse_blk_body_eq)

lemma search_none_no_key: "\<not> contains key c \<Longrightarrow> search (step_re key) c = None"
  using search_lit_contains[of key _ c] unfolding step_re_def
  by (cases "search [Lit key, Star Space, Lit '':'', Star Space, Group DigitDot] c") auto

lemma spec_step_none: "search re c = None \<Longrightarrow> spec_step re c = None"
  by (simp add: spec_step_def)

lemma no_prefix_inside:
  assumes "k < length tok" and "x \<notin> set tok"
  shows "\<not> prefix (x # l) (drop k (tok @ rest))"
proof -
  from assms(1) have "drop k (tok @ rest) = tok ! k # drop (Suc k) tok @ rest"
    by (simp add: Cons_nth_drop_Suc)
  moreover from assms have "tok ! k \<noteq> x" by (metis nth_mem)
  ultimately show ?thesis by simp
qed

lemma match_lit_none: "\<not> prefix l s \<Longrightarrow> match_here (Lit l # r) s = None"
  by simp

lemma spec_step_absent_iff:
  assumes "\<not> bad_capture (step_re key) c"
  shows "spec_step (step_re key) c = None \<longleftrightarrow> search (step_re key) c = None"
proof (cases "search (step_re key) c")
  case None
  then show ?thesis by (simp add: spec_step_def)
next
  case (Some gs)
  from step_re_captures[OF Some] obtain g where g: "gs = [g]" by blast
  with assms Some have "converts g" by (simp add: bad_capture_def)
  then obtain v where "float_lexeme g = Inr v" by (auto simp: converts_iff)
  with Some g show ?thesis by (simp add: spec_step_def)
qed

lemma spec_size_absent_iff:
  assumes "\<not> bad_capture size_re c"
  shows "spec_size c = None \<longleftrightarrow> search size_re c = None"
proof (cases "search size_re c")
  case None
  then show ?thesis by (simp add: spec_size_def)
next
  case (Some gs)
  from size_re_captures[OF Some] obtain g1 g2 where g: "gs = [g1, g2]" by blast
  with assms Some have "converts g1" "converts g2" by (simp_all add: bad_capture_def)
  then obtain w h where "float_lexeme g1 = Inr w" "float_lexeme g2 = Inr h"
    by (auto simp: converts_iff)
  with Some g show ?thesis by (simp add: spec_size_def)
qed

lemma captures_of_pattern:
  assumes "re \<in> {size_re, ground_re, air_re, naval_re}" and "search re c = Some gs"
    and "g \<in> set gs"
  shows "g \<noteq> [] \<and> (\<forall>x\<in>set g. is_decimal x \<or> x = CHR ''.'')"
proof (cases "re = size_re")
  case True
  with assms(2) size_re_captures[of c gs] obtain g1 g2 where
    "gs = [g1, g2]" "g1 \<noteq> []" "g2 \<noteq> []" "\<forall>x\<in>set (g1 @ g2). is_decimal x \<or> x = CHR ''.''"
    by blast
  with assms(3) show ?thesis by auto
next
  case False
  with assms(1) obtain key where "re = step_re key"
    by (auto simp: ground_re_def air_re_def naval_re_def)
  with assms(2) step_re_captures[of key c gs] obtain g0 where
    "gs = [g0]" "g0 \<noteq> []" "\<forall>x\<in>set g0. is_decimal x \<or> x = CHR ''.''"
    by blast
  with assms(3) show ?thesis by auto
qed

text \<open>
  Claim C5, as stated: a malformed value of one field only omits that field and leaves
  every other field as in the same text without it. This fails on the code: with the
  grid step \<^verbatim>\<open>1.2.3\<close> the conversion raises inside the single \<^verbatim>\<open>try\<close> block, and
  the result is the empty dict; the map size and even \<open>game_modes\<close> are lost.
\<close>

theorem field_independence_counterexample:
  "parse_blk_file (Content ''mapSize: [1, 2] gridStep: 1.2.3'') = empty_data \<and>
   parse_blk_file (Content ''mapSize: [1, 2] '') =
     \<lparr>map_size = Some (1, 2), ground_grid_step = None, air_grid_step = None,
      naval_grid_step = None, game_modes = Some [''unknown'']\<rparr>"
  by code_simp

text \<open>
  Claim C5, amended. \<open>parse_blk_file\<close> is total (it never raises). When no matched
  capture fails to convert, its result is the field-by-field extraction of the
  specification: every field is decided by its own pattern alone, and \<open>game_modes\<close> is
  always present; in particular a field whose key token does not occur in the text is
  absent. When some matched capture fails to convert, the result is the empty dict:
  every field is omitted, \<open>game_modes\<close> included.
\<close>

theorem field_extraction_all_or_nothing:
  "(\<not> conversion_fails c \<longrightarrow> parse_blk_file (Content c) = spec_extract c) \<and>
   (conversion_fails c \<longrightarrow> parse_blk_file (Content c) = empty_data) \<and>
   (\<not> contains ''mapSize'' c \<longrightarrow> spec_size c = None) \<and>
   (\<not> contains key c \<longrightarrow> spec_step (step_re key) c = None)"
proof (intro conjI impI)
  assume "\<not> conversion_fails c"
  then show "parse_blk_file (Content c) = spec_extract c" by (simp add: parse_blk_file_fieldwise)
next
  assume "conversion_fails c"
  then show "parse_blk_file (Content c) = empty_data" by (simp add: parse_blk_file_fieldwise)
next
  assume "\<not> contains ''mapSize'' c"
  then have "search size_re c = None"
    using search_lit_contains[of "''mapSize''" _ c] unfolding size_re_def
    by (metis not_Some_eq)
  then show "spec_size c = None" by (simp add: spec_size_def)
next
  assume "\<not> contains key c"
  then have "search (step_re key) c = None" by (rule search_none_no_key)
  then show "spec_step (step_re key) c = None" by (rule spec_step_none)
qed

text \<open>Claim C5: the amended statement at concrete texts, one per hypothesis.\<close>

theorem field_extraction_all_or_nothing_witness:
  "\<not> conversion_fails ''mapSize: [1, 2] gridStep: 1.5'' \<and>
   parse_blk_file (Content ''mapSize: [1, 2] gridStep: 1.5'') =
     spec_extract ''mapSize: [1, 2] gridStep: 1.5'' \<and>
   conversion_fails ''mapSize: [1, 2] gridStep: 1.2.3'' \<and>
   parse_blk_file (Content ''mapSize: [1, 2] gridStep: 1.2.3'') = empty_data \<and>
   \<not> contains ''mapSize'' ''gridStep: 1.5'' \<and> spec_size ''gridStep: 1.5'' = None \<and>
   \<not> contains ''airGridStep'' ''gridStep: 1.5'' \<and>
   spec_step (step_re ''airGridStep'') ''gridStep: 1.5'' = None"
proof -
  have h1: "\<not> conversion_fails ''mapSize: [1, 2] gridStep: 1.5''" by code_simp
  have h2: "conversion_fails ''mapSize: [1, 2] gridStep: 1.2.3''" by code_simp
  have h3: "\<not> contains ''mapSize'' ''gridStep: 1.5''" by code_simp
  have h4: "\<not> contains ''airGridStep'' ''gridStep: 1.5''" by code_simp
  from field_extraction_all_or_nothing[of "''mapSize: [1, 2] gridStep: 1.5''" "''x''"] h1
  have c1: "parse_blk_file (Content ''mapSize: [1, 2] gridStep: 1.5'') =
     spec_extract ''mapSize: [1, 2] gridStep: 1.5''" by blast
  from field_extraction_all_or_nothing[of "''mapSize: [1, 2] gridStep: 1.2.3''" "''x''"] h2
  have c2: "parse_blk_file (Content ''mapSize: [1, 2] gridStep: 1.2.3'') = empty_data" by blast
  from field_extraction_all_or_nothing[of "''gridStep: 1.5''" "''airGridStep''"] h3 h4
  have c3: "spec_size ''gridStep: 1.5'' = None"
    and c4: "spec_step (step_re ''airGridStep'') ''gridStep: 1.5'' = None" by blast+
  from h1 h2 h3 h4 c1 c2 c3 c4 show ?thesis by blast
qed

text \<open>
  Claim C6, as stated: whenever a numeric pattern matches, converting the capture
  succeeds, and a numeric field is absent only when its pattern does not match. The class
  \<^verbatim>\<open>[\d.]+\<close> also captures \<^verbatim>\<open>1.2.3\<close>: the pattern matches, \<^verbatim>\<open>float\<close> raises
  \<^verbatim>\<open>ValueError\<close>, and the field is absent although its pattern matched.
\<close>

theorem capture_conversion_counterexample:
  "search ground_re ''gridStep: 1.2.3'' = Some [''1.2.3''] \<and>
   float_lexeme ''1.2.3'' = Inl ValueError \<and>
   ground_grid_step (parse_blk_file (Content ''gridStep: 1.2.3'')) = None"
  by code_simp

text \<open>
  Claim C6, amended. Every capture of the four numeric patterns is a non-empty string of
  digits and dots, and \<^verbatim>\<open>float\<close> returns on it exactly when it holds at most one dot and
  at least one digit. A numeric field is absent exactly when its pattern does not match
  or some matched capture of the text fails to convert.
\<close>

theorem numeric_capture_conversion:
  "(re \<in> {size_re, ground_re, air_re, naval_re} \<and> search re c = Some gs \<and> g \<in> set gs \<longrightarrow>
      g \<noteq> [] \<and> (\<forall>x\<in>set g. is_decimal x \<or> x = CHR ''.'') \<and>
      ((\<exists>v. float_lexeme g = Inr v) \<longleftrightarrow>
         count_list g (CHR ''.'') \<le> 1 \<and> (\<exists>x\<in>set g. is_decimal x))) \<and>
   (map_size (parse_blk_file (Content c)) = None \<longleftrightarrow>
      search size_re c = None \<or> conversion_fails c) \<and>
   (ground_grid_step (parse_blk_file (Content c)) = None \<longleftrightarrow>
      search ground_re c = None \<or> conversion_fails c) \<and>
   (air_grid_step (parse_blk_file (Content c)) = None \<longleftrightarrow>
      search air_re c = None \<or> conversion_fails c) \<and>
   (naval_grid_step (parse_blk_file (Content c)) = None \<longleftrightarrow>
      search naval_re c = None \<or> conversion_fails c)"
proof (intro conjI impI)
  assume a: "re \<in> {size_re, ground_re, air_re, naval_re} \<and> search re c = Some gs \<and> g \<in> set gs"
  then have s: "g \<noteq> [] \<and> (\<forall>x\<in>set g. is_decimal x \<or> x = CHR ''.'')"
    using captures_of_pattern[of re c gs g] by blast
  then show "g \<noteq> []" and "\<forall>x\<in>set g. is_decimal x \<or> x = CHR ''.''" by blast+
  from s have "converts g \<longleftrightarrow> count_list g (CHR ''.'') \<le> 1 \<and> (\<exists>x\<in>set g. is_decimal x)"
    by (intro float_lexeme_ok_iff) blast
  then show "(\<exists>v. float_lexeme g = Inr v) \<longleftrightarrow>
         count_list g (CHR ''.'') \<le> 1 \<and> (\<exists>x\<in>set g. is_decimal x)"
    by (simp only: converts_iff)
next
  show "map_size (parse_blk_file (Content c)) = None \<longleftrightarrow>
      search size_re c = None \<or> conversion_fails c"
  proof (cases "conversion_fails c")
    case True
    then show ?thesis by (simp add: parse_blk_file_fieldwise empty_data_def)
  next
    case False
    then have "\<not> bad_capture size_re c" by (simp add: conversion_fails_def)
    from spec_size_absent_iff[OF this] False show ?thesis
      by (simp add: parse_blk_file_fieldwise spec_extract_def)
  qed
next
  show "ground_grid_step (parse_blk_file (Content c)) = None \<longleftrightarrow>
      search ground_re c = None \<or> conversion_fails c"
  proof (cases "conversion_fails c")
    case True
    then show ?thesis by (simp add: parse_blk_file_fieldwise empty_data_def)
  next
    case False
    then have "\<not> bad_capture (step_re ''gridStep'') c"
      by (simp add: conversion_fails_def ground_re_def)
    from spec_step_absent_iff[OF this] False show ?thesis
      by (simp add: parse_blk_file_fieldwise spec_extract_def ground_re_def)
  qed
next
  show "air_grid_step (parse_blk_file (Content c)) = None \<longleftrightarrow>
      search air_re c = None \<or> conversion_fails c"
  proof (cases "conversion_fails c")
    case True
    then show ?thesis by (simp add: parse_blk_file_fieldwise empty_data_def)
  next
    case False
    then have "\<not> bad_capture (step_re ''airGridStep'') c"
      by (simp add: conversion_fails_def air_re_def)
    from spec_step_absent_iff[OF this] False show ?thesis
      by (simp add: parse_blk_file_fieldwise spec_extract_def air_re_def)
  qed
next
  show "naval_grid_step (parse_blk_file (Content c)) = None \<longleftrightarrow>
      search naval_re c = None \<or> conversion_fails c"
  proof (cases "conversion_fails c")
    case True
    then show ?thesis by (simp add: parse_blk_file_fieldwise empty_data_def)
  next
    case False
    then have "\<not> bad_capture (step_re ''navalGridStep'') c"
      by (simp add: conversion_fails_def naval_re_def)
    from spec_step_absent_iff[OF this] False show ?thesis
      by (simp add: parse_blk_file_fieldwise spec_extract_def naval_re_def)
  qed
qed

text \<open>Claim C6: the amended statement at the text \<^verbatim>\<open>gridStep: 50.0\<close>.\<close>

theorem numeric_capture_conversion_witness:
  "ground_re \<in> {size_re, ground_re, air_re, naval_re} \<and>
   search ground_re ''gridStep: 50.0'' = Some [''50.0''] \<and>
   ''50.0'' \<in> set [''50.0''] \<and>
   ((\<exists>v. float_lexeme ''50.0'' = Inr v) \<longleftrightarrow>
      count_list ''50.0'' (CHR ''.'') \<le> 1 \<and> (\<exists>x\<in>set ''50.0''. is_decimal x)) \<and>
   float_lexeme ''50.0'' = Inr 50"
proof -
  have h1: "ground_re \<in> {size_re, ground_re, air_re, naval_re}" by simp
  have h2: "search ground_re ''gridStep: 50.0'' = Some [''50.0'']" by code_simp
  have h3: "''50.0'' \<in> set [''50.0'']" by simp
  have h4: "float_lexeme ''50.0'' = Inr 50" by code_simp
  from numeric_capture_conversion[of ground_re "''gridStep: 50.0''" "[''50.0'']" "''50.0''"] h1 h2 h3
  have "(\<exists>v. float_lexeme ''50.0'' = Inr v) \<longleftrightarrow>
      count_list ''50.0'' (CHR ''.'') \<le> 1 \<and> (\<exists>x\<in>set ''50.0''. is_decimal x)"
    by blast
  with h1 h2 h3 h4 show ?thesis by blast
qed

subsection \<open>Key tokens and game modes\<close>

text \<open>
  Claim C8. A text without the ground key token \<^verbatim>\<open>gridStep\<close> has \<open>ground_grid_step\<close>
  absent, and the ground pattern matches at no position inside an occurrence of
  \<^verbatim>\<open>airGridStep\<close> or \<^verbatim>\<open>navalGridStep\<close>, whatever follows the occurrence: these tokens
  spell \<^verbatim>\<open>GridStep\<close> with a capital letter and the patterns are case sensitive.
\<close>

theorem ground_key_no_cross_match:
  "(\<not> contains ''gridStep'' content \<longrightarrow>
      ground_grid_step (parse_blk_file (Content content)) = None) \<and>
   (\<forall>tok \<in> {''airGridStep'', ''navalGridStep''}. \<forall>k < length tok.
      match_here ground_re (drop k (tok @ rest)) = None)"
proof
  show "\<not> contains ''gridStep'' content \<longrightarrow>
      ground_grid_step (parse_blk_file (Content content)) = None"
  proof
    assume "\<not> contains ''gridStep'' content"
    then have "search ground_re content = None"
      unfolding ground_re_def by (rule search_none_no_key)
    then have "spec_step ground_re content = None" by (rule spec_step_none)
    then show "ground_grid_step (parse_blk_file (Content content)) = None"
      by (simp add: parse_blk_file_fieldwise spec_extract_def empty_data_def)
  qed
next
  show "\<forall>tok \<in> {''airGridStep'', ''navalGridStep''}. \<forall>k < length tok.
      match_here ground_re (drop k (tok @ rest)) = None"
  proof (intro ballI allI impI)
    fix tok :: string and k :: nat
    assume tok: "tok \<in> {''airGridStep'', ''navalGridStep''}" and k: "k < length tok"
    from tok have "CHR ''g'' \<notin> set tok" by auto
    with k have "\<not> prefix ''gridStep'' (drop k (tok @ rest))" by (rule no_prefix_inside)
    then show "match_here ground_re (drop k (tok @ rest)) = None"
      unfolding ground_re_def step_re_def by (rule match_lit_none)
  qed
qed

text \<open>Claim C8: a text with the air and the naval key and no ground key.\<close>

theorem ground_key_no_cross_match_witness:
  "\<not> contains ''gridStep'' ''airGridStep: 100.0 navalGridStep: 200.0'' \<and>
   ground_grid_step (parse_blk_file (Content ''airGridStep: 100.0 navalGridStep: 200.0'')) = None \<and>
   ''airGridStep'' \<in> {''airGridStep'', ''navalGridStep''} \<and>
   3 < length ''airGridStep'' \<and>
   match_here ground_re (drop 3 (''airGridStep'' @ '': 5'')) = None"
proof -
  have h1: "\<not> contains ''gridStep'' ''airGridStep: 100.0 navalGridStep: 200.0''" by code_simp
  have h2: "''airGridStep'' \<in> {''airGridStep'', ''navalGridStep''}" by simp
  have h3: "3 < length ''airGridStep''" by simp
  note t = ground_key_no_cross_match[of "''airGridStep: 100.0 navalGridStep: 200.0''" "'': 5''"]
  from t h1 have c1:
    "ground_grid_step (parse_blk_file (Content ''airGridStep: 100.0 navalGridStep: 200.0'')) = None"
    by blast
  from t h2 h3 have c2: "match_here ground_re (drop 3 (''airGridStep'' @ '': 5'')) = None"
    by blast
  from h1 h2 h3 c1 c2 show ?thesis by blast
qed

lemma lower_append: "lower (a @ b) = lower a @ lower b"
  by (simp add: lower_def)

lemma contains_lower:
  assumes "contains key c" and "lower key = tag @ tl0"
  shows "contains tag (lower c)"
proof -
  from assms(1) obtain pre post where "c = pre @ key @ post" by (auto simp: contains_iff)
  then have "lower c = lower pre @ tag @ (tl0 @ lower post)"
    using assms(2) by (simp add: lower_append)
  then show ?thesis unfolding contains_iff by blast
qed

lemma lower_air: "lower ''airGridStep'' = ''air'' @ ''gridstep''"
  by code_simp

lemma lower_naval: "lower ''navalGridStep'' = ''naval'' @ ''gridstep''"
  by code_simp

lemma spec_step_some: "spec_step (step_re key) c = Some v \<Longrightarrow> contains key c"
  using search_none_no_key[of key c] by (cases "contains key c") (auto simp: spec_step_def)

lemma air_in_modes: "contains ''air'' (lower c) \<Longrightarrow> ''air'' \<in> set (detect_modes c)"
  by (simp add: detect_modes_def Let_def)

lemma naval_in_modes: "contains ''naval'' (lower c) \<Longrightarrow> ''naval'' \<in> set (detect_modes c)"
  by (simp add: detect_modes_def Let_def)

text \<open>
  Claim C10. When the extracted record holds \<open>air_grid_step\<close>, the tag \<^verbatim>\<open>air\<close> is among
  its game modes, and likewise \<open>naval_grid_step\<close> and \<^verbatim>\<open>naval\<close>: the key token itself
  contains the tag. Nothing of the kind holds for \<open>ground_grid_step\<close>: the text
  \<^verbatim>\<open>gridStep: 50.0\<close> yields the ground step and the single mode \<^verbatim>\<open>unknown\<close>.
\<close>

theorem grid_step_implies_mode:
  "(air_grid_step (parse_blk_file (Content c)) = Some v \<longrightarrow>
      (\<exists>modes. game_modes (parse_blk_file (Content c)) = Some modes \<and> ''air'' \<in> set modes)) \<and>
   (naval_grid_step (parse_blk_file (Content c)) = Some v \<longrightarrow>
      (\<exists>modes. game_modes (parse_blk_file (Content c)) = Some modes \<and> ''naval'' \<in> set modes)) \<and>
   (ground_grid_step (parse_blk_file (Content ''gridStep: 50.0'')) = Some 50 \<and>
    game_modes (parse_blk_file (Content ''gridStep: 50.0'')) = Some [''unknown''])"
proof (intro conjI impI)
  assume a: "air_grid_step (parse_blk_file (Content c)) = Some v"
  then have ok: "\<not> conversion_fails c"
    by (auto simp: parse_blk_file_fieldwise empty_data_def split: if_splits)
  with a have "spec_step (step_re ''airGridStep'') c = Some v"
    by (simp add: parse_blk_file_fieldwise spec_extract_def air_re_def)
  then have "contains ''airGridStep'' c" by (rule spec_step_some)
  then have "contains ''air'' (lower c)" using lower_air by (rule contains_lower)
  then have "''air'' \<in> set (detect_modes c)" by (rule air_in_modes)
  with ok show "\<exists>modes. game_modes (parse_blk_file (Content c)) = Some modes \<and> ''air'' \<in> set modes"
    by (simp add: parse_blk_file_fieldwise spec_extract_def)
next
  assume a: "naval_grid_step (parse_blk_file (Content c)) = Some v"
  then have ok: "\<not> conversion_fails c"
    by (auto simp: parse_blk_file_fieldwise empty_data_def split: if_splits)
  with a have "spec_step (step_re ''navalGridStep'') c = Some v"
    by (simp add: parse_blk_file_fieldwise spec_extract_def naval_re_def)
  then have "contains ''navalGridStep'' c" by (rule spec_step_some)
  then have "contains ''naval'' (lower c)" using lower_naval by (rule contains_lower)
  then have "''naval'' \<in> set (detect_modes c)" by (rule naval_in_modes)
  with ok show "\<exists>modes. game_modes (parse_blk_file (Content c)) = Some modes \<and> ''naval'' \<in> set modes"
    by (simp add: parse_blk_file_fieldwise spec_extract_def)
next
  show "ground_grid_step (parse_blk_file (Content ''gridStep: 50.0'')) = Some 50" by code_simp
next
  show "game_modes (parse_blk_file (Content ''gridStep: 50.0'')) = Some [''unknown'']" by code_simp
qed

text \<open>Claim C10: a text with both the air and the naval key.\<close>

theorem grid_step_implies_mode_witness:
  "air_grid_step (parse_blk_file (Content ''airGridStep: 100.0 navalGridStep: 100.0'')) = Some 100 \<and>
   naval_grid_step (parse_blk_file (Content ''airGridStep: 100.0 navalGridStep: 100.0'')) = Some 100 \<and>
   (\<exists>modes. game_modes (parse_blk_file (Content ''airGridStep: 100.0 navalGridStep: 100.0'')) =
      Some modes \<and> ''air'' \<in> set modes) \<and>
   (\<exists>modes. game_modes (parse_blk_file (Content ''airGridStep: 100.0 navalGridStep: 100.0'')) =
      Some modes \<and> ''naval'' \<in> set modes)"
proof -
  have h1: "air_grid_step (parse_blk_file (Content ''airGridStep: 100.0 navalGridStep: 100.0'')) = Some 100"
    by code_simp
  have h2: "naval_grid_step (parse_blk_file (Content ''airGridStep: 100.0 navalGridStep: 100.0'')) = Some 100"
    by code_simp
  note t = grid_step_implies_mode[of "''airGridStep: 100.0 navalGridStep: 100.0''" 100]
  from t h1 have c1: "\<exists>modes. game_modes (parse_blk_file (Content ''airGridStep: 100.0 navalGridStep: 100.0'')) =
      Some modes \<and> ''air'' \<in> set modes" by blast
  from t h2 have c2: "\<exists>modes. game_modes (parse_blk_file (Content ''airGridStep: 100.0 navalGridStep: 100.0'')) =
      Some modes \<and> ''naval'' \<in> set modes" by blast
  from h1 h2 c1 c2 show ?thesis by blast
qed

subsection \<open>The display name\<close>

lemma replace_absent: "old \<noteq> [] \<Longrightarrow> \<not> contains old s \<Longrightarrow> replace old new s = s"
  by (induction s) auto

lemma replace_prefix:
  "old \<noteq> [] \<Longrightarrow> prefix old s \<Longrightarrow> replace old new s = new @ replace old new (drop (length old) s)"
  by (cases s) auto

text \<open>
  The first occurrence of the token is removed wherever it stands, and the replacement goes
  on behind it: \<open>pre\<close> is a text in which no occurrence starts.
\<close>

lemma prefix_inside:
  assumes "prefix old (a @ old @ post)" and "a \<noteq> []"
  shows "prefix old (a @ butlast old)"
proof (cases "old = []")
  case True
  then show ?thesis by simp
next
  case False
  then have o: "old = butlast old @ [last old]" by simp
  have "prefix old ((a @ butlast old) @ last old # post)"
    using assms(1) by (subst (asm) (2) o) simp
  moreover have "length old \<le> length (a @ butlast old)"
    using assms(2) by (cases a) auto
  moreover have "prefix (a @ butlast old) ((a @ butlast old) @ last old # post)" by simp
  ultimately show ?thesis by (metis prefix_length_prefix)
qed

lemma replace_first:
  assumes "old \<noteq> []" and "\<not> contains old (pre @ butlast old)"
  shows "replace old new (pre @ old @ post) = pre @ new @ replace old new post"
  using assms(2)
proof (induction pre)
  case Nil
  show ?case using replace_prefix[OF assms(1), of "old @ post" new] by simp
next
  case (Cons x pre)
  from Cons.prems have np: "\<not> prefix old ((x # pre) @ butlast old)"
    and nc: "\<not> contains old (pre @ butlast old)" by simp_all
  from np have "\<not> prefix old ((x # pre) @ old @ post)"
    using prefix_inside[of old "x # pre" post] by blast
  with Cons.IH[OF nc] assms(1) show ?case by simp
qed

text \<open>
  Title-casing can change the length of a text (the sharp s becomes two letters), but it
  keeps the spaces: the number of spaces in a display name is the number of underscores
  and spaces of the text it is made from.
\<close>

lemma count_replace_char:
  "a \<noteq> b \<Longrightarrow> count_list (replace [a] [b] s) b = count_list s a + count_list s b"
  by (induction s) auto

lemma count_drop_prefix:
  "prefix old s \<Longrightarrow> count_list s ch = count_list old ch + count_list (drop (length old) s) ch"
  by (auto simp: prefix_def)

lemma count_replace_same:
  "old \<noteq> [] \<Longrightarrow> ch \<notin> set old \<Longrightarrow> count_list (replace old [] s) ch = count_list s ch"
proof (induction old "[]::string" s rule: replace.induct)
  case (1 old)
  then show ?case by simp
next
  case (2 old x xs)
  show ?case
  proof (cases "prefix old (x # xs)")
    case True
    with 2 have "count_list (replace old [] (drop (length old) (x # xs))) ch
        = count_list (drop (length old) (x # xs)) ch" by simp
    moreover have "count_list old ch = 0" using 2(5) by simp
    ultimately show ?thesis using True 2(4) count_drop_prefix[OF True, of ch] by simp
  next
    case False
    with 2 show ?thesis by simp
  qed
qed

lemma count_replace_le:
  "old \<noteq> [] \<Longrightarrow> count_list (replace old [] s) ch \<le> count_list s ch"
proof (induction old "[]::string" s rule: replace.induct)
  case (1 old)
  then show ?case by simp
next
  case (2 old x xs)
  show ?case
  proof (cases "prefix old (x # xs)")
    case True
    with 2 have "count_list (replace old [] (drop (length old) (x # xs))) ch
        \<le> count_list (drop (length old) (x # xs)) ch" by simp
    then show ?thesis using True 2(4) count_drop_prefix[OF True, of ch] by simp
  next
    case False
    with 2 show ?thesis by simp
  qed
qed

lemma count_replace_less:
  "old \<noteq> [] \<Longrightarrow> ch \<in> set old \<Longrightarrow> contains old s \<Longrightarrow>
   count_list (replace old [] s) ch < count_list s ch"
proof (induction s)
  case Nil
  then show ?case by simp
next
  case (Cons x xs)
  show ?case
  proof (cases "prefix old (x # xs)")
    case True
    have "count_list (replace old [] (drop (length old) (x # xs))) ch
        \<le> count_list (drop (length old) (x # xs)) ch"
      using Cons.prems(1) by (rule count_replace_le)
    moreover have "0 < count_list old ch" using Cons.prems(2) by (metis count_list_0_iff gr0I)
    moreover have "replace old [] (x # xs) = replace old [] (drop (length old) (x # xs))"
      using True Cons.prems(1) by simp
    ultimately show ?thesis using count_drop_prefix[OF True, of ch] by simp
  next
    case False
    with Cons show ?thesis by simp
  qed
qed

lemma of_char_space: "(of_char c :: nat) = 32 \<longleftrightarrow> c = CHR '' ''"
proof -
  have "(of_char c :: nat) = of_char (CHR '' '') \<longleftrightarrow> c = CHR '' ''" by (rule of_char_eq_iff)
  then show ?thesis by simp
qed

lemma count_title_char: "count_list (title_char c) 32 = (if c = CHR '' '' then 1 else 0)"
  using of_char_space[of c] by (auto simp: title_char_def Let_def)

lemma lower_char_space: "(of_char (lower_char c) :: nat) = 32 \<longleftrightarrow> c = CHR '' ''"
proof (cases "lower_char c = c")
  case True
  then show ?thesis by (simp add: of_char_space)
next
  case False
  then have r: "(65 \<le> (of_char c :: nat) \<and> (of_char c :: nat) \<le> 90) \<or>
      (192 \<le> (of_char c :: nat) \<and> (of_char c :: nat) \<le> 222 \<and> (of_char c :: nat) \<noteq> 215)"
    and l: "lower_char c = char_of ((of_char c :: nat) + 32)"
    by (auto simp: lower_char_def Let_def split: if_splits)
  from r have "((of_char c :: nat) + 32) mod 256 = of_char c + 32" by auto
  then have "(of_char (lower_char c) :: nat) = of_char c + 32" by (simp add: l)
  with r of_char_space[of c] show ?thesis by auto
qed

lemma count_title_from: "count_list (title_from p s) 32 = count_list s (CHR '' '')"
  by (induction s arbitrary: p) (auto simp: count_title_char lower_char_space)

lemma count_display_name:
  "count_list (title (replace ''_'' '' '' s)) 32 = count_list s (CHR ''_'') + count_list s (CHR '' '')"
  by (simp add: title_def count_title_from count_replace_char)

text \<open>
  Claim C9, as stated: only a leading prefix token is stripped, an occurrence in the
  middle of the identifier is preserved. \<^verbatim>\<open>str.replace\<close> removes every occurrence.
\<close>

theorem display_name_inner_token_counterexample:
  "localized_name_of ''avg_port_avg_novo'' = cp ''Port Novo'' \<and>
   spec_display_name ''avg_port_avg_novo'' = cp ''Port Avg Novo''"
  by code_simp

text \<open>
  Claim C9, amended. The display name is a function of the identifier alone, and the
  token \<^verbatim>\<open>avg_\<close> is removed wherever it occurs: for an identifier whose first occurrence
  of the token follows the text \<open>pre\<close>, the display name is the title-cased text of
  \<open>pre\<close> followed by what is left of the rest after removing its occurrences, with
  every underscore replaced by a space. The display name equals the name obtained by
  stripping a leading token only exactly when the rest of the identifier holds no
  further occurrence of the token. Both hold for every identifier over the code points
  0..255, on which \<open>title\<close> is \<^verbatim>\<open>str.title\<close>.
\<close>

theorem display_name_strips_every_token:
  "(\<not> contains ''avg_'' (pre @ ''avg'') \<longrightarrow>
      localized_name_of (pre @ ''avg_'' @ post) =
        title (replace ''_'' '' '' (pre @ replace ''avg_'' [] post))) \<and>
   (localized_name_of ident = spec_display_name ident \<longleftrightarrow>
      \<not> contains ''avg_'' (strip_prefix_token ''avg_'' ident))"
proof (intro conjI impI)
  assume "\<not> contains ''avg_'' (pre @ ''avg'')"
  then have "replace ''avg_'' [] (pre @ ''avg_'' @ post) = pre @ [] @ replace ''avg_'' [] post"
    using replace_first[of "''avg_''" pre "[]" post] by simp
  then show "localized_name_of (pre @ ''avg_'' @ post) =
        title (replace ''_'' '' '' (pre @ replace ''avg_'' [] post))"
    by (simp add: localized_name_of_def)
next
  define rest where "rest = strip_prefix_token ''avg_'' ident"
  have r: "replace ''avg_'' [] ident = replace ''avg_'' [] rest"
    unfolding rest_def strip_prefix_token_def
    using replace_prefix[of "''avg_''" ident "[]"] by simp
  show "localized_name_of ident = spec_display_name ident \<longleftrightarrow>
      \<not> contains ''avg_'' (strip_prefix_token ''avg_'' ident)"
  proof (cases "contains ''avg_'' rest")
    case False
    then have "replace ''avg_'' [] rest = rest" by (simp add: replace_absent)
    with r False show ?thesis
      by (simp add: localized_name_of_def spec_display_name_def rest_def)
  next
    case True
    have "count_list (replace ''avg_'' [] rest) (CHR ''_'') < count_list rest (CHR ''_'')"
      using True by (simp add: count_replace_less)
    moreover have "count_list (replace ''avg_'' [] rest) (CHR '' '') = count_list rest (CHR '' '')"
      by (simp add: count_replace_same)
    ultimately have "count_list (localized_name_of ident) 32 < count_list (spec_display_name ident) 32"
      unfolding localized_name_of_def spec_display_name_def r rest_def[symmetric]
      by (simp only: count_display_name)
    then have "localized_name_of ident \<noteq> spec_display_name ident" by auto
    with True show ?thesis by (simp add: rest_def)
  qed
qed

text \<open>
  Claim C9: the amended statement at the identifiers \<^verbatim>\<open>port_avg_novo\<close>, whose token
  stands in the middle, and \<^verbatim>\<open>avg_berlin\<close>.
\<close>

theorem display_name_strips_every_token_witness:
  "\<not> contains ''avg_'' (''port_'' @ ''avg'') \<and>
   localized_name_of (''port_'' @ ''avg_'' @ ''novo'') = cp ''Port Novo'' \<and>
   \<not> contains ''avg_'' (strip_prefix_token ''avg_'' ''avg_berlin'') \<and>
   localized_name_of ''avg_berlin'' = spec_display_name ''avg_berlin'' \<and>
   localized_name_of ''avg_berlin'' = cp ''Berlin''"
proof -
  have h1: "\<not> contains ''avg_'' (''port_'' @ ''avg'')" by code_simp
  have v1: "title (replace ''_'' '' '' (''port_'' @ replace ''avg_'' [] ''novo'')) = cp ''Port Novo''"
    by code_simp
  have h2: "\<not> contains ''avg_'' (strip_prefix_token ''avg_'' ''avg_berlin'')" by code_simp
  have v2: "spec_display_name ''avg_berlin'' = cp ''Berlin''" by code_simp
  from display_name_strips_every_token[of "''port_''" "''novo''" "''avg_berlin''"] h1 h2
  have "localized_name_of (''port_'' @ ''avg_'' @ ''novo'') =
          title (replace ''_'' '' '' (''port_'' @ replace ''avg_'' [] ''novo''))"
    and "localized_name_of ''avg_berlin'' = spec_display_name ''avg_berlin''" by blast+
  with h1 h2 v1 v2 show ?thesis by simp
qed

subsection \<open>The collection of maps\<close>

lemma map_of_visit:
  "map_of (visit ms e) k =
     (if accepted e \<and> entry_name e = k
      then Some (make_info k (localized_name_of k) (parse_blk_file (the (level_blk e))))
      else map_of ms k)"
  by (auto simp: visit_def accepted_def Let_def update_conv' split: option.splits)

lemma map_of_foldl_visit_other:
  "k \<notin> entry_name ` set es \<Longrightarrow> map_of (foldl visit ms es) k = map_of ms k"
  by (induction es arbitrary: ms) (auto simp: map_of_visit)

lemma map_of_foldl_visit:
  assumes "distinct (map entry_name es)" and "e \<in> set es"
  shows "map_of (foldl visit ms es) (entry_name e) =
     (if accepted e
      then Some (make_info (entry_name e) (localized_name_of (entry_name e))
                   (parse_blk_file (the (level_blk e))))
      else map_of ms (entry_name e))"
  using assms
proof (induction es arbitrary: ms)
  case Nil
  then show ?case by simp
next
  case (Cons a es)
  show ?case
  proof (cases "e = a")
    case True
    with Cons.prems have "entry_name e \<notin> entry_name ` set es" by auto
    then have "map_of (foldl visit (visit ms a) es) (entry_name e) = map_of (visit ms a) (entry_name e)"
      by (rule map_of_foldl_visit_other)
    with True show ?thesis by (simp add: map_of_visit)
  next
    case False
    with Cons.prems have e: "e \<in> set es" and d: "distinct (map entry_name es)"
      and ne: "entry_name a \<noteq> entry_name e" by auto
    from Cons.IH[OF d e, of "visit ms a"] ne show ?thesis
      by (simp add: map_of_visit)
  qed
qed

lemma parse_empty_content:
  "parse_blk_file (Content []) =
     \<lparr>map_size = None, ground_grid_step = None, air_grid_step = None,
      naval_grid_step = None, game_modes = Some [''unknown'']\<rparr>"
  by code_simp

lemma parse_unreadable: "parse_blk_file Unreadable = empty_data"
  by (simp add: parse_blk_file_def read_file_def)

text \<open>
  Claim C7, as stated: a map directory whose config file is empty or unreadable gets a
  record with all optional fields absent and \<open>game_modes\<close> equal to \<^verbatim>\<open>["unknown"]\<close>.
  For an unreadable file \<open>parse_blk_file\<close> returns the empty dict, and the guard
  \<^verbatim>\<open>if map_data:\<close> skips the map: the collection holds no record for it.
\<close>

theorem unreadable_config_counterexample:
  "extract_all_maps (Some
      [\<lparr>entry_name = ''m'', is_dir = True, level_blk = Some Unreadable\<rparr>]) = []"
  by code_simp

text \<open>
  Claim C7, amended. In a listing with distinct names, a map directory whose config file
  is empty gets a record with all optional fields absent and \<open>game_modes\<close> equal to
  \<^verbatim>\<open>["unknown"]\<close>; a map directory whose config file is unreadable gets no record.
\<close>

theorem empty_or_unreadable_config:
  assumes "distinct (map entry_name es)" and "e \<in> set es" and "is_dir e"
  shows "(level_blk e = Some (Content []) \<longrightarrow>
            map_of (extract_all_maps (Some es)) (entry_name e) =
              Some \<lparr>map_size = None, ground_grid_step = None, air_grid_step = None,
                    naval_grid_step = None, game_modes = Some [''unknown''],
                    name = entry_name e, localized_name = localized_name_of (entry_name e)\<rparr>) \<and>
         (level_blk e = Some Unreadable \<longrightarrow>
            map_of (extract_all_maps (Some es)) (entry_name e) = None)"
proof (intro conjI impI)
  assume "level_blk e = Some (Content [])"
  with assms(3) show "map_of (extract_all_maps (Some es)) (entry_name e) =
              Some \<lparr>map_size = None, ground_grid_step = None, air_grid_step = None,
                    naval_grid_step = None, game_modes = Some [''unknown''],
                    name = entry_name e, localized_name = localized_name_of (entry_name e)\<rparr>"
    by (simp add: extract_all_maps_def map_of_foldl_visit[OF assms(1,2)] accepted_def
        parse_empty_content empty_data_def make_info_def)
next
  assume "level_blk e = Some Unreadable"
  then show "map_of (extract_all_maps (Some es)) (entry_name e) = None"
    by (simp add: extract_all_maps_def map_of_foldl_visit[OF assms(1,2)] accepted_def
        parse_unreadable)
qed

text \<open>Claim C7: the amended statement at a listing with one empty and one unreadable file.\<close>

theorem empty_or_unreadable_config_witness:
  "distinct (map entry_name
      [\<lparr>entry_name = ''e'', is_dir = True, level_blk = Some (Content [])\<rparr>,
       \<lparr>entry_name = ''u'', is_dir = True, level_blk = Some Unreadable\<rparr>]) \<and>
   map_of (extract_all_maps (Some
      [\<lparr>entry_name = ''e'', is_dir = True, level_blk = Some (Content [])\<rparr>,
       \<lparr>entry_name = ''u'', is_dir = True, level_blk = Some Unreadable\<rparr>])) ''e'' =
     Some \<lparr>map_size = None, ground_grid_step = None, air_grid_step = None,
           naval_grid_step = None, game_modes = Some [''unknown''],
           name = ''e'', localized_name = cp ''E''\<rparr> \<and>
   map_of (extract_all_maps (Some
      [\<lparr>entry_name = ''e'', is_dir = True, level_blk = Some (Content [])\<rparr>,
       \<lparr>entry_name = ''u'', is_dir = True, level_blk = Some Unreadable\<rparr>])) ''u'' = None"
proof -
  let ?e = "\<lparr>entry_name = ''e'', is_dir = True, level_blk = Some (Content [])\<rparr>"
  let ?u = "\<lparr>entry_name = ''u'', is_dir = True, level_blk = Some Unreadable\<rparr>"
  have d: "distinct (map entry_name [?e, ?u])" by simp
  have ln: "localized_name_of ''e'' = cp ''E''" by code_simp
  have "map_of (extract_all_maps (Some [?e, ?u])) (entry_name ?e) =
     Some \<lparr>map_size = None, ground_grid_step = None, air_grid_step = None,
           naval_grid_step = None, game_modes = Some [''unknown''],
           name = entry_name ?e, localized_name = localized_name_of (entry_name ?e)\<rparr>"
    using empty_or_unreadable_config[OF d, of ?e] by simp
  then have c1: "map_of (extract_all_maps (Some [?e, ?u])) ''e'' =
     Some \<lparr>map_size = None, ground_grid_step = None, air_grid_step = None,
           naval_grid_step = None, game_modes = Some [''unknown''],
           name = ''e'', localized_name = cp ''E''\<rparr>"
    by (simp only: ln dir_entry.simps)
  have "map_of (extract_all_maps (Some [?e, ?u])) (entry_name ?u) = None"
    using empty_or_unreadable_config[OF d, of ?u] by simp
  then have c2: "map_of (extract_all_maps (Some [?e, ?u])) ''u'' = None"
    by (simp only: dir_entry.simps)
  from d c1 c2 show ?thesis by blast
qed

subsection \<open>The two outputs\<close>

text \<open>
  The generator writes \<^verbatim>\<open>None\<close> for an absent step and for the step \<^verbatim>\<open>0.0\<close>; its order
  is ascending; it is the order of the JSON dump exactly when the dictionary was filled
  in ascending order.
\<close>

lemma step_expr_none_iff: "step_expr v = ''None'' \<longleftrightarrow> v = None \<or> v = Some 0"
  by (cases v) (auto simp: step_expr_def truthy_def)

lemma rust_order_sorted: "sorted (rust_order ms)"
  by (simp add: rust_order_def sorted_items_def)

lemma orders_agree_iff: "json_order ms = rust_order ms \<longleftrightarrow> sorted (json_order ms)"
proof
  assume "json_order ms = rust_order ms"
  then show "sorted (json_order ms)" using rust_order_sorted[of ms] by simp
next
  assume "sorted (json_order ms)"
  then have "sort_key fst ms = ms" unfolding json_order_def by (rule sort_key_id_if_sorted)
  then show "json_order ms = rust_order ms"
    by (simp add: json_order_def rust_order_def sorted_items_def)
qed

text \<open>
  Claim C1. The generator is to emit \<^verbatim>\<open>Some(v)\<close> exactly when a grid step is present and
  \<^verbatim>\<open>None\<close> exactly when it is absent, so that a present \<^verbatim>\<open>0.0\<close> and an absent value
  are rendered differently. The code tests the truth value of the step, and \<^verbatim>\<open>0.0\<close>
  is false: a \<^verbatim>\<open>level.blk\<close> holding \<^verbatim>\<open>gridStep: 0.0\<close> yields a record whose
  \<open>ground_grid_step\<close> is present with value 0, and the generated code for it is
  \<^verbatim>\<open>ground_grid_step: None\<close>, character for character the code generated for a map
  whose file has no grid step at all.
\<close>

theorem zero_grid_step_rendered_as_none:
  "map_of (extract_all_maps (Some
      [\<lparr>entry_name = ''m'', is_dir = True, level_blk = Some (Content ''gridStep: 0.0'')\<rparr>])) ''m'' =
     Some \<lparr>map_size = None, ground_grid_step = Some 0, air_grid_step = None,
           naval_grid_step = None, game_modes = Some [''unknown''],
           name = ''m'', localized_name = cp ''M''\<rparr> \<and>
   generate_rust_code (extract_all_maps (Some
      [\<lparr>entry_name = ''m'', is_dir = True, level_blk = Some (Content ''gridStep: 0.0'')\<rparr>])) =
     Inr (cp (nl @ ''        // M'' @
          nl @ ''        self.maps.insert('' @ dq @ ''m'' @ dq @ ''.to_string(), MapGridInfo {'' @
          nl @ ''            name: '' @ dq @ ''m'' @ dq @ ''.to_string(),'' @
          nl @ ''            localized_name: '' @ dq @ ''M'' @ dq @ ''.to_string(),'' @
          nl @ ''            ground_grid_step: None,'' @
          nl @ ''            air_grid_step: None,'' @
          nl @ ''            naval_grid_step: None,'' @
          nl @ ''            map_size: [4096.0, 4096.0],'' @
          nl @ ''            game_modes: vec!['' @ dq @ ''unknown'' @ dq @ ''.to_string()],'' @
          nl @ ''        });'')) \<and>
   generate_rust_code (extract_all_maps (Some
      [\<lparr>entry_name = ''m'', is_dir = True, level_blk = Some (Content ''gridStep: 0.0'')\<rparr>])) =
   generate_rust_code (extract_all_maps (Some
      [\<lparr>entry_name = ''m'', is_dir = True, level_blk = Some (Content [])\<rparr>]))"
  by code_simp

text \<open>
  Claim C2. The JSON dump and the generator are to enumerate the records in the same
  order. The generator sorts the items; the dump follows the insertion order of the
  dictionary, which is the order of discovery. For a listing that yields \<^verbatim>\<open>berlin\<close>
  before \<^verbatim>\<open>alps\<close> the two orders differ.
\<close>

theorem json_and_rust_order_differ:
  "json_order (extract_all_maps (Some
      [\<lparr>entry_name = ''berlin'', is_dir = True, level_blk = Some (Content ''gridStep: 50.0'')\<rparr>,
       \<lparr>entry_name = ''alps'', is_dir = True, level_blk = Some (Content ''airGridStep: 100.0'')\<rparr>])) =
     [''berlin'', ''alps''] \<and>
   rust_order (extract_all_maps (Some
      [\<lparr>entry_name = ''berlin'', is_dir = True, level_blk = Some (Content ''gridStep: 50.0'')\<rparr>,
       \<lparr>entry_name = ''alps'', is_dir = True, level_blk = Some (Content ''airGridStep: 100.0'')\<rparr>])) =
     [''alps'', ''berlin'']"
  by code_simp

text \<open>
  Claim C3. The JSON dump is to list the records by ascending identifier whatever the
  order of discovery. For a listing that yields \<^verbatim>\<open>kursk\<close> before \<^verbatim>\<open>arctic\<close> the dump
  keeps that order, which is not ascending.
\<close>

theorem json_order_is_discovery_order:
  "json_order (extract_all_maps (Some
      [\<lparr>entry_name = ''kursk'', is_dir = True, level_blk = Some (Content ''tank'')\<rparr>,
       \<lparr>entry_name = ''arctic'', is_dir = True, level_blk = Some (Content ''naval'')\<rparr>])) =
     [''kursk'', ''arctic''] \<and>
   \<not> sorted [''kursk'', ''arctic'']"
  by code_simp

subsection \<open>The JSON document read back\<close>








lemma scanstring_basestring:
  "encode_basestring s @ rest = 34 # concat (map escape_char s) @ 34 # rest"
  by (simp add: encode_basestring_def)



























































lemma maps_value_keys:
  "maps_value ms = PDict kvs \<Longrightarrow> map fst kvs = map cp (json_order ms)"
  by (auto simp: maps_value_def json_order_def)



end
